theory Spec2Isabelle
  imports Main "HOL-Library.Word" "HOL-Library.Multiset"
begin

section \<open>Errors\<close>

text \<open>
  The exceptions the notebooks can raise.  \<open>ExternalError n\<close> is whatever an external call
  (an HTTP API, the Redis server) raises; \<open>n\<close> tells one such failure from another.
\<close>

datatype error =
    IndexError
  | KeyError string
  | AttributeError
  | TypeError
  | ValueError
  | BinasciiError
  | FileNotFoundError string
  | ExternalError nat

section \<open>JSON records to CSV (gpt\_action\_sql\_database.ipynb, conversion cell)\<close>

text \<open>
  A decoded JSON object is a Python dict: its keys are strings, distinct, and kept in
  insertion order.  It is modelled as an association list in that order.
\<close>

type_synonym 'v pydict = "(string \<times> 'v) list"

definition dict_keys :: "'v pydict \<Rightarrow> string list" where
  "dict_keys d = map fst d"

definition dict_values :: "'v pydict \<Rightarrow> 'v list" where
  "dict_values d = map snd d"

text \<open>
  \<open>csvwriter.writerow\<close> is handed an iterable of cells and appends one row to the file.
  The header row holds keys, the data rows hold values; the file is the sequence of rows
  written so far.
\<close>

datatype 'v cell = Key string | Val 'v

type_synonym 'v csvfile = "'v cell list list"

definition writerow :: "'v csvfile \<Rightarrow> 'v cell list \<Rightarrow> 'v csvfile" where
  "writerow csvfile r = csvfile @ [r]"

text \<open>The loop \<^verbatim>\<open>for row in data: csvwriter.writerow(row.values())\<close>.\<close>

fun write_data_rows :: "'v csvfile \<Rightarrow> 'v pydict list \<Rightarrow> 'v csvfile" where
  "write_data_rows csvfile [] = csvfile"
| "write_data_rows csvfile (row # rest) =
     write_data_rows (writerow csvfile (map Val (dict_values row))) rest"

text \<open>
  The body of the cell after \<open>json.loads\<close>: \<open>open(csv_file, 'w')\<close> leaves an empty file,
  \<open>data[0]\<close> raises IndexError on the empty list, otherwise the header and the data rows
  are written and the final \<open>print\<close> is reached.  The result is the file's rows together
  with the error or the printed line.
\<close>

definition json_to_csv :: "'v pydict list \<Rightarrow> 'v csvfile \<times> (error + string)" where
  "json_to_csv data =
     (let csvfile = [] in
      case data of
        [] \<Rightarrow> (csvfile, Inl IndexError)
      | first # _ \<Rightarrow>
          (let header = dict_keys first;
               csvfile = writerow csvfile (map Key header);
               csvfile = write_data_rows csvfile data
           in (csvfile, Inr ''JSON data has been written to output.csv'')))"






section \<open>Base64 (\<open>base64.b64encode\<close> and \<open>base64.b64decode\<close> as the notebooks call them)\<close>

text \<open>
  The notebooks call Python's standard library.  The encoder is RFC 4648 with the
  standard alphabet and \<open>=\<close> padding, three bytes to four characters.  The decoder
  follows the library's default (non-validating) mode: characters outside the alphabet
  are skipped, a sufficient run of \<open>=\<close> ends the input, and data left over in an
  unfinished group of four is an error.  Bytes are 8-bit words.
\<close>

type_synonym byte = "8 word"

definition b64_alphabet :: string where
  "b64_alphabet = ''ABCDEFGHIJKLMNOPQRSTUVWXYZabcdefghijklmnopqrstuvwxyz0123456789+/''"

definition table_b2a_base64 :: "nat \<Rightarrow> char" where
  "table_b2a_base64 i = b64_alphabet ! i"

fun index_of :: "'a \<Rightarrow> 'a list \<Rightarrow> nat option" where
  "index_of x [] = None"
| "index_of x (y # ys) = (if x = y then Some 0 else map_option Suc (index_of x ys))"

definition table_a2b_base64 :: "char \<Rightarrow> nat option" where
  "table_a2b_base64 c = index_of c b64_alphabet"

fun b64encode :: "byte list \<Rightarrow> string" where
  "b64encode [] = []"
| "b64encode [a] =
     (let x = unat a in
      [table_b2a_base64 (x div 4), table_b2a_base64 ((x mod 4) * 16), CHR ''='', CHR ''=''])"
| "b64encode [a, b] =
     (let x = unat a; y = unat b in
      [table_b2a_base64 (x div 4), table_b2a_base64 ((x mod 4) * 16 + y div 16),
       table_b2a_base64 ((y mod 16) * 4), CHR ''=''])"
| "b64encode (a # b # c # rest) =
     (let x = unat a; y = unat b; z = unat c in
      [table_b2a_base64 (x div 4), table_b2a_base64 ((x mod 4) * 16 + y div 16),
       table_b2a_base64 ((y mod 16) * 4 + z div 64), table_b2a_base64 (z mod 64)]
      @ b64encode rest)"

text \<open>
  The decoder's loop.  \<open>quad_pos\<close> counts the alphabet characters seen in the current
  group of four, \<open>leftchar\<close> holds the bits not yet written out, \<open>pads\<close> the \<open>=\<close> seen
  in a row, \<open>bin_data\<close> the bytes decoded so far.
\<close>

fun a2b_base64 :: "nat \<Rightarrow> nat \<Rightarrow> nat \<Rightarrow> byte list \<Rightarrow> string \<Rightarrow> error + byte list" where
  "a2b_base64 quad_pos leftchar pads bin_data [] =
     (if quad_pos \<noteq> 0 then Inl BinasciiError else Inr bin_data)"
| "a2b_base64 quad_pos leftchar pads bin_data (this_ch # rest) =
     (if this_ch = CHR ''='' then
        (if quad_pos \<ge> 2 then
           (if quad_pos + (pads + 1) \<ge> 4 then Inr bin_data
            else a2b_base64 quad_pos leftchar (pads + 1) bin_data rest)
         else a2b_base64 quad_pos leftchar pads bin_data rest)
      else
        (case table_a2b_base64 this_ch of
           None \<Rightarrow> a2b_base64 quad_pos leftchar pads bin_data rest
         | Some v \<Rightarrow>
             (if quad_pos = 0 then a2b_base64 1 v 0 bin_data rest
              else if quad_pos = 1 then
                a2b_base64 2 (v mod 16) 0 (bin_data @ [of_nat (leftchar * 4 + v div 16)]) rest
              else if quad_pos = 2 then
                a2b_base64 3 (v mod 4) 0 (bin_data @ [of_nat (leftchar * 16 + v div 4)]) rest
              else
                a2b_base64 0 0 0 (bin_data @ [of_nat (leftchar * 64 + v)]) rest)))"

definition is_ascii :: "char \<Rightarrow> bool" where
  "is_ascii c = (of_char c < (128 :: nat))"

text \<open>A \<open>str\<close> argument must be ASCII, or \<open>b64decode\<close> raises ValueError.\<close>

definition b64decode :: "string \<Rightarrow> error + byte list" where
  "b64decode s = (if list_all is_ascii s then a2b_base64 0 0 0 [] s else Inl ValueError)"

section \<open>Decimal rendering of integers (\<open>str\<close> inside an f-string)\<close>

definition digit_char :: "nat \<Rightarrow> char" where
  "digit_char d = ''0123456789'' ! d"

function str_nat :: "nat \<Rightarrow> string" where
  "str_nat n = (if n < 10 then [digit_char n] else str_nat (n div 10) @ [digit_char (n mod 10)])"
  by pat_completeness auto
termination
  by (relation "measure id") auto

definition str_int :: "int \<Rightarrow> string" where
  "str_int i = (if i < 0 then CHR ''-'' # str_nat (nat (- i)) else str_nat (nat i))"

section \<open>The notebook's state and its external services\<close>

type_synonym path = string

text \<open>A pandas DataFrame with string cells: a missing key in a row is NaN.\<close>

type_synonym row = "string \<rightharpoonup> string"

record dataframe =
  columns :: "string list"
  rows :: "row list"

text \<open>
  The requests the notebooks send: the image API, the Responses API (model, text, image
  URL, \<open>max_output_tokens\<close>, \<open>temperature\<close>), the vector-store file upload (store, file
  name, content) and attribute update (store, file id, month), and the two Redis search
  commands of the index cell (index name; vector dimension).
\<close>

datatype call =
    ImagesGenerate string string string
  | ResponsesCreate string string string nat string
  | FilesUpload string string string
  | FilesUpdate string string "string option"
  | FtDropIndex string
  | FtCreateIndex string nat

datatype reply =
    ImagesResponse "string option list"
  | Response string
  | FileObject string
  | RedisOK

text \<open>
  An external service answers a request with a reply or raises; its answer may depend on
  everything sent before.
\<close>

type_synonym service = "call list \<Rightarrow> call \<Rightarrow> error + reply"

record notebook =
  files :: "path \<rightharpoonup> byte list"
  tables :: "path \<rightharpoonup> dataframe"
  stdout :: "string list"
  displayed :: "path list"
  sent :: "call list"

definition external :: "service \<Rightarrow> call \<Rightarrow> notebook \<Rightarrow> (error + reply) \<times> notebook" where
  "external ext c st = (ext (sent st) c, st\<lparr>sent := sent st @ [c]\<rparr>)"

definition print :: "string \<Rightarrow> notebook \<Rightarrow> notebook" where
  "print line st = st\<lparr>stdout := stdout st @ [line]\<rparr>"

text \<open>\<open>display(Image(...))\<close> of a file that is on disk.\<close>

definition display_image :: "path \<Rightarrow> notebook \<Rightarrow> notebook" where
  "display_image p st = st\<lparr>displayed := displayed st @ [p]\<rparr>"

section \<open>Image generation with an on-disk cache (image\_understanding\_with\_rag.ipynb)\<close>

definition prompt :: string where
  "prompt = ''Gourmet pasta neatly plated with garnish and sides on a white ceramic plate, ''
          @ ''photographed from above on a restaurant table. Soft shadows and vibrant colors.''"

text \<open>
  \<open>hash\<close> is Python's built-in hash of a \<open>str\<close>.  It is salted per interpreter process,
  so it is a parameter of the model: the hash function of the running session.
\<close>

definition cache_path :: "(string \<Rightarrow> int) \<Rightarrow> path" where
  "cache_path hash = ''.local_cache/'' @ str_int (hash prompt) @ ''.png''"

text \<open>\<open>response.data[0].b64_json\<close>, handed to \<open>b64decode\<close>.\<close>

fun b64_json_of :: "reply \<Rightarrow> error + string" where
  "b64_json_of (ImagesResponse []) = Inl IndexError"
| "b64_json_of (ImagesResponse (None # _)) = Inl TypeError"
| "b64_json_of (ImagesResponse (Some s # _)) = Inr s"
| "b64_json_of _ = Inl AttributeError"

text \<open>
  The cell.  \<open>open(cache_path, "wb")\<close> creates the file before the argument of
  \<open>f.write\<close> is evaluated, so a failure there leaves an empty file behind.
\<close>

definition generate_cell :: "(string \<Rightarrow> int) \<Rightarrow> service \<Rightarrow> notebook \<Rightarrow> (error + unit) \<times> notebook" where
  "generate_cell hash ext st =
     (if cache_path hash \<notin> dom (files st) then
        (case external ext (ImagesGenerate ''gpt-image-1'' prompt ''1024x1024'') st of
           (Inl e, st1) \<Rightarrow> (Inl e, st1)
         | (Inr response, st1) \<Rightarrow>
             (let st2 = st1\<lparr>files := (files st1)(cache_path hash \<mapsto> [])\<rparr> in
              case b64_json_of response of
                Inl e \<Rightarrow> (Inl e, st2)
              | Inr s \<Rightarrow>
                  (case b64decode s of
                     Inl e \<Rightarrow> (Inl e, st2)
                   | Inr bytes \<Rightarrow>
                       (let st3 = st2\<lparr>files := (files st2)(cache_path hash \<mapsto> bytes)\<rparr>;
                            st4 = print (''Generated and cached: '' @ cache_path hash) st3
                        in (Inr (), display_image (cache_path hash) st4)))))
      else
        (let st1 = print (''Loading from cache: '' @ cache_path hash) st
         in (Inr (), display_image (cache_path hash) st1)))"

section \<open>Image sentiment (encode\_image, analyze\_image\_sentiment)\<close>

definition encode_image :: "path \<Rightarrow> notebook \<Rightarrow> error + string" where
  "encode_image image_path st =
     (case files st image_path of
        None \<Rightarrow> Inl (FileNotFoundError image_path)
      | Some bytes \<Rightarrow> Inr (b64encode bytes))"

text \<open>
  \<open>str.strip()\<close>: leading and trailing whitespace is removed.  The whitespace modelled is
  the ASCII one (tab to carriage return, the four separators, the space).
\<close>

definition is_space :: "char \<Rightarrow> bool" where
  "is_space c = (let n = (of_char c :: nat) in (9 \<le> n \<and> n \<le> 13) \<or> (28 \<le> n \<and> n \<le> 32))"

definition strip :: "string \<Rightarrow> string" where
  "strip s = rev (dropWhile is_space (rev (dropWhile is_space s)))"

fun output_text_of :: "reply \<Rightarrow> error + string" where
  "output_text_of (Response t) = Inr t"
| "output_text_of _ = Inl AttributeError"

definition analyze_prompt :: string where
  "analyze_prompt = ''Analyze this food delivery image. Respond with a brief description ''
                  @ ''and sentiment (positive/negative) in one line.''"

definition analyze_image_sentiment :: "service \<Rightarrow> path \<Rightarrow> notebook \<Rightarrow> (error + string) \<times> notebook" where
  "analyze_image_sentiment ext image_path st =
     (case encode_image image_path st of
        Inl e \<Rightarrow> (Inl e, st)
      | Inr base64_image \<Rightarrow>
          (case external ext
                  (ResponsesCreate ''gpt-4.1'' analyze_prompt
                     (''data:image/jpeg;base64,'' @ base64_image) 50 ''0.2'') st of
             (Inl e, st1) \<Rightarrow> (Inl e, st1)
           | (Inr response, st1) \<Rightarrow>
               (case output_text_of response of
                  Inl e \<Rightarrow> (Inl e, st1)
                | Inr t \<Rightarrow> (Inr (strip t), st1))))"

section \<open>The data-processing merge cell\<close>

text \<open>\<open>row[col]\<close> on a row of a frame with the given columns: KeyError for an unknown column.\<close>

definition series_get :: "string list \<Rightarrow> row \<Rightarrow> string \<Rightarrow> error + string option" where
  "series_get cols row col = (if col \<in> set cols then Inr (row col) else Inl (KeyError col))"

text \<open>
  \<open>df[~df['image_path'].isna()].iterrows()\<close>: the rows that name an image, each with its
  index label, which for a frame read by \<open>read_csv\<close> is its position.
\<close>

definition image_rows :: "dataframe \<Rightarrow> error + (nat \<times> row) list" where
  "image_rows df =
     (if ''image_path'' \<in> set (columns df)
      then Inr (filter (\<lambda>(idx, row). row ''image_path'' \<noteq> None) (enumerate 0 (rows df)))
      else Inl (KeyError ''image_path''))"

text \<open>
  \<open>df.at[idx, col] = v\<close> for a label \<open>idx\<close> of the frame: the column is added when the
  frame does not have it yet.
\<close>

definition set_at :: "dataframe \<Rightarrow> nat \<Rightarrow> string \<Rightarrow> string \<Rightarrow> dataframe" where
  "set_at df idx col v =
     \<lparr>columns = (if col \<in> set (columns df) then columns df else columns df @ [col]),
      rows = (rows df)[idx := ((rows df) ! idx)(col \<mapsto> v)]\<rparr>"

text \<open>Path('.local\_cache') / 'images' / name, for the plain file names of the dataset.\<close>

definition image_file :: "string \<Rightarrow> string \<Rightarrow> path" where
  "image_file cache_dir name = cache_dir @ ''/images/'' @ name"

fun merge_loop :: "service \<Rightarrow> string list \<Rightarrow> (nat \<times> row) list \<Rightarrow> dataframe \<Rightarrow> notebook
                   \<Rightarrow> (error + unit) \<times> dataframe \<times> notebook" where
  "merge_loop ext cols [] df st = (Inr (), df, st)"
| "merge_loop ext cols ((idx, row) # rest) df st =
     (case series_get cols row ''image_path'' of
        Inl e \<Rightarrow> (Inl e, df, st)
      | Inr None \<Rightarrow> (Inl TypeError, df, st)
      | Inr (Some name) \<Rightarrow>
          (case analyze_image_sentiment ext (image_file ''.local_cache'' name) st of
             (Inl e, st1) \<Rightarrow> (Inl e, df, st1)
           | (Inr sentiment, st1) \<Rightarrow>
               (case series_get cols row ''text'' of
                  Inl e \<Rightarrow> (Inl e, df, st1)
                | Inr text \<Rightarrow>
                    (let v = (case text of Some t \<Rightarrow> t @ '' '' @ sentiment | None \<Rightarrow> sentiment);
                         df1 = set_at df idx ''full_sentiment'' v;
                         st2 = print (''Processed '' @ name) st1
                     in merge_loop ext cols rest df1 st2))))"

text \<open>\<open>df['full_sentiment'].fillna(df['text'])\<close>, row by row.\<close>

definition fillna_text :: "row \<Rightarrow> row" where
  "fillna_text row =
     row(''full_sentiment'' := (case row ''full_sentiment'' of None \<Rightarrow> row ''text'' | Some v \<Rightarrow> Some v))"

text \<open>
  The cell, with \<open>df\<close> the frame that \<open>pd.read_csv\<close> returned.  The frame written by
  \<open>to_csv\<close> is kept under its path in \<open>tables\<close>.
\<close>

definition merge_cell :: "service \<Rightarrow> dataframe \<Rightarrow> notebook
                          \<Rightarrow> (error + unit) \<times> dataframe \<times> notebook" where
  "merge_cell ext df st =
     (case image_rows df of
        Inl e \<Rightarrow> (Inl e, df, st)
      | Inr todo \<Rightarrow>
          (case merge_loop ext (columns df) todo df st of
             (Inl e, df1, st1) \<Rightarrow> (Inl e, df1, st1)
           | (Inr _, df1, st1) \<Rightarrow>
               if ''full_sentiment'' \<notin> set (columns df1)
                 then (Inl (KeyError ''full_sentiment''), df1, st1)
               else if ''text'' \<notin> set (columns df1)
                 then (Inl (KeyError ''text''), df1, st1)
               else
                 (let df2 = df1\<lparr>rows := map fillna_text (rows df1)\<rparr>;
                      output_path = ''.local_cache/df_full_sentiment.csv'';
                      st2 = st1\<lparr>tables := (tables st1)(output_path \<mapsto> df2)\<rparr>;
                      st3 = print (''\<newline>Saved results to '' @ output_path) st2
                  in (Inr (), df2, st3))))"


section \<open>Uploading the context files (upload\_files\_to\_vector\_store)\<close>

text \<open>
  \<open>row.get(key, default)\<close> inside an f-string: the default when the frame has no such
  column, \<open>nan\<close> for a missing value.
\<close>

definition row_get :: "string list \<Rightarrow> row \<Rightarrow> string \<Rightarrow> string \<Rightarrow> string" where
  "row_get cols row key dflt =
     (if key \<in> set cols then (case row key of None \<Rightarrow> ''nan'' | Some v \<Rightarrow> v) else dflt)"

fun file_id_of :: "reply \<Rightarrow> error + string" where
  "file_id_of (FileObject i) = Inr i"
| "file_id_of _ = Inl AttributeError"

fun upload_loop :: "service \<Rightarrow> string \<Rightarrow> string list \<Rightarrow> string \<Rightarrow> (nat \<times> row) list
                    \<Rightarrow> string list \<Rightarrow> notebook \<Rightarrow> (error + string list) \<times> notebook" where
  "upload_loop ext vector_store_id cols column_name [] file_ids st = (Inr file_ids, st)"
| "upload_loop ext vector_store_id cols column_name ((i, row) # rest) file_ids st =
     (case series_get cols row column_name of
        Inl e \<Rightarrow> (Inl e, st)
      | Inr v \<Rightarrow>
          (let file_stream = (case v of None \<Rightarrow> ''No information available.'' | Some s \<Rightarrow> s);
               name = ''context_'' @ row_get cols row ''id'' (str_nat i) @ ''_''
                      @ row_get cols row ''month'' [] @ ''.txt''
           in case external ext (FilesUpload vector_store_id name file_stream) st of
                (Inl e, st1) \<Rightarrow> (Inl e, st1)
              | (Inr file, st1) \<Rightarrow>
                  (case file_id_of file of
                     Inl e \<Rightarrow> (Inl e, st1)
                   | Inr fid \<Rightarrow>
                       upload_loop ext vector_store_id cols column_name rest
                         (file_ids @ [fid]) st1)))"

fun update_loop :: "service \<Rightarrow> string \<Rightarrow> string list \<Rightarrow> string list \<Rightarrow> (nat \<times> row) list
                    \<Rightarrow> notebook \<Rightarrow> (error + unit) \<times> notebook" where
  "update_loop ext vector_store_id cols file_ids [] st = (Inr (), st)"
| "update_loop ext vector_store_id cols file_ids ((i, row) # rest) st =
     (if length file_ids \<le> i then (Inl IndexError, st)
      else case series_get cols row ''month'' of
        Inl e \<Rightarrow> (Inl e, st)
      | Inr month \<Rightarrow>
          (case external ext (FilesUpdate vector_store_id (file_ids ! i) month) st of
             (Inl e, st1) \<Rightarrow> (Inl e, st1)
           | (Inr _, st1) \<Rightarrow> update_loop ext vector_store_id cols file_ids rest st1))"

definition upload_files_to_vector_store ::
    "service \<Rightarrow> string \<Rightarrow> dataframe \<Rightarrow> string \<Rightarrow> notebook \<Rightarrow> (error + unit) \<times> notebook" where
  "upload_files_to_vector_store ext vector_store_id df column_name st =
     (case upload_loop ext vector_store_id (columns df) column_name
             (enumerate 0 (rows df)) [] st of
        (Inl e, st1) \<Rightarrow> (Inl e, st1)
      | (Inr file_ids, st1) \<Rightarrow>
          update_loop ext vector_store_id (columns df) file_ids (enumerate 0 (rows df)) st1)"

section \<open>Showing the retrieved images (display\_retrieved\_images)\<close>

text \<open>
  The parts of a Responses API result the function reads: \<open>response.output\<close> is a list of
  items, of which only a message has \<open>content\<close>; of the content parts only output text has
  \<open>annotations\<close>; of the annotations only a file citation has a \<open>filename\<close>.
\<close>

datatype annotation = FileCitation string | UrlCitation

datatype content_part = OutputText "annotation list" | Refusal

datatype output_item = Message "content_part list" | FileSearchCall

fun filenames :: "annotation list \<Rightarrow> error + string list" where
  "filenames [] = Inr []"
| "filenames (FileCitation f # rest) =
     (case filenames rest of Inl e \<Rightarrow> Inl e | Inr fs \<Rightarrow> Inr (f # fs))"
| "filenames (UrlCitation # rest) = Inl AttributeError"

text \<open>
  \<open>response.output[1].content[0].annotations\<close> and the file name of every annotation, in
  the order of the comprehension.
\<close>

definition retrieved_filenames :: "output_item list \<Rightarrow> error + string list" where
  "retrieved_filenames output =
     (if length output < 2 then Inl IndexError
      else case output ! 1 of
        FileSearchCall \<Rightarrow> Inl AttributeError
      | Message content \<Rightarrow>
          (case content of
             [] \<Rightarrow> Inl IndexError
           | part # _ \<Rightarrow>
               (case part of
                  Refusal \<Rightarrow> Inl AttributeError
                | OutputText annotations \<Rightarrow> filenames annotations)))"

text \<open>
  \<open>IMAGE_ID_MAPPING\<close>, the dict comprehension over the rows that name an image; a later
  row with the same key replaces an earlier one.
\<close>

definition fmt :: "string option \<Rightarrow> string" where
  "fmt v = (case v of None \<Rightarrow> ''nan'' | Some s \<Rightarrow> s)"

fun build_mapping :: "string list \<Rightarrow> row list \<Rightarrow> (string \<rightharpoonup> string)
                      \<Rightarrow> error + (string \<rightharpoonup> string)" where
  "build_mapping cols [] m = Inr m"
| "build_mapping cols (row # rest) m =
     (case series_get cols row ''id'' of
        Inl e \<Rightarrow> Inl e
      | Inr i \<Rightarrow>
          (case series_get cols row ''month'' of
             Inl e \<Rightarrow> Inl e
           | Inr month \<Rightarrow>
               (case row ''image_path'' of
                  None \<Rightarrow> build_mapping cols rest m
                | Some p \<Rightarrow>
                    build_mapping cols rest
                      (m(''context_'' @ fmt i @ ''_'' @ fmt month @ ''.txt'' \<mapsto> p)))))"

definition IMAGE_ID_MAPPING :: "dataframe \<Rightarrow> error + (string \<rightharpoonup> string)" where
  "IMAGE_ID_MAPPING df =
     (case image_rows df of
        Inl e \<Rightarrow> Inl e
      | Inr todo \<Rightarrow> build_mapping (columns df) (map snd todo) Map.empty)"

text \<open>
  The loop over \<open>retrieved_files\<close>.  The returned dict \<open>displayed_images\<close> is kept as the
  list of its items in insertion order; the keys come from a set, so none repeats.
\<close>

fun display_loop :: "(string \<rightharpoonup> string) \<Rightarrow> string \<Rightarrow> string list \<Rightarrow> (string \<times> path) list
                     \<Rightarrow> notebook \<Rightarrow> (string \<times> path) list \<times> notebook" where
  "display_loop mapping cache_dir [] displayed_images st = (displayed_images, st)"
| "display_loop mapping cache_dir (file # rest) displayed_images st =
     (case mapping file of
        None \<Rightarrow> display_loop mapping cache_dir rest displayed_images st
      | Some p \<Rightarrow>
          if p \<noteq> [] then
            (let image_path = image_file cache_dir p;
                 st1 = print (''Displaying image for '' @ file @ '':'') st;
                 st2 = display_image image_path st1
             in display_loop mapping cache_dir rest (displayed_images @ [(file, image_path)]) st2)
          else display_loop mapping cache_dir rest displayed_images st)"

text \<open>
  \<open>retrieved_files\<close> is a Python set of strings.  The order in which a set is iterated is
  not fixed by its elements: it follows the strings' hashes, which are salted per
  interpreter process.  \<open>set_iter\<close> is the running session's order, a function from the
  elements as they were inserted to the sequence the loop visits.
\<close>

definition display_retrieved_images ::
    "(string list \<Rightarrow> string list) \<Rightarrow> (string \<rightharpoonup> string) \<Rightarrow> output_item list \<Rightarrow> string
     \<Rightarrow> notebook \<Rightarrow> (string \<times> path) list \<times> notebook" where
  "display_retrieved_images set_iter mapping response cache_dir st =
     (case retrieved_filenames response of
        Inl e \<Rightarrow> ([], print ''No search results found in the response.'' st)
      | Inr names \<Rightarrow> display_loop mapping cache_dir (set_iter names) [] st)"

text \<open>What a set iteration has to be: every distinct element, once.\<close>

definition iterates :: "(string list \<Rightarrow> string list) \<Rightarrow> string list \<Rightarrow> bool" where
  "iterates set_iter names = (distinct (set_iter names) \<and> set (set_iter names) = set names)"

text \<open>The loop's test \<^verbatim>\<open>file in IMAGE_ID_MAPPING and IMAGE_ID_MAPPING[file]\<close>.\<close>

definition has_image :: "(string \<rightharpoonup> string) \<Rightarrow> string \<Rightarrow> bool" where
  "has_image mapping file = (case mapping file of None \<Rightarrow> False | Some p \<Rightarrow> p \<noteq> [])"

section \<open>Creating the Redis index (redisjson.ipynb)\<close>

text \<open>
  \<^verbatim>\<open>try: client.ft('idx').dropindex()  except: pass\<close> and then \<open>create_index\<close>: whatever
  \<open>dropindex\<close> raises is caught and dropped.
\<close>

definition create_index_cell :: "service \<Rightarrow> nat \<Rightarrow> notebook \<Rightarrow> (error + reply) \<times> notebook" where
  "create_index_cell ext dim st =
     (case external ext (FtDropIndex ''idx'') st of
        (Inl _, st1) \<Rightarrow> external ext (FtCreateIndex ''idx'' dim) st1
      | (Inr _, st1) \<Rightarrow> external ext (FtCreateIndex ''idx'' dim) st1)"

section \<open>Failing fast\<close>

fun failure_of :: "error + 'a \<Rightarrow> error option" where
  "failure_of (Inl e) = Some e"
| "failure_of (Inr _) = None"

text \<open>
  An operation that sent the requests \<open>new\<close> after the requests \<open>before\<close> fails fast when
  a request that the service answered with an error is the last one it sent, and that
  error is the operation's own outcome.
\<close>

definition fails_fast :: "service \<Rightarrow> call list \<Rightarrow> call list \<Rightarrow> error option \<Rightarrow> bool" where
  "fails_fast ext before new outcome =
     (\<forall>i < length new. \<forall>e. ext (before @ take i new) (new ! i) = Inl e
          \<longrightarrow> Suc i = length new \<and> outcome = Some e)"

text \<open>
  What one operation does to the log of requests: it appends the requests it sends, and
  it fails fast on them.
\<close>

definition call_step :: "service \<Rightarrow> notebook \<Rightarrow> notebook \<Rightarrow> error option \<Rightarrow> bool" where
  "call_step ext st st' outcome =
     (\<exists>new. sent st' = sent st @ new \<and> fails_fast ext (sent st) new outcome)"

section \<open>The middleware's HTTP interface (gpt\_action\_sql\_database.ipynb, OpenAPI schema)\<close>

text \<open>The responses the schema declares for \<open>POST /api/query\<close>, by status code.\<close>

definition schema_responses :: "(nat \<times> string) list" where
  "schema_responses =
     [(200, ''database records''),
      (400, ''Bad Request. Invalid input.''),
      (401, ''Unauthorized. Invalid or missing API key.'')]"

datatype status_category = ClientError | AuthError | OtherError

datatype service_error = ServiceError nat status_category

text \<open>
  Modelled from the spec: the External Service Client of section 4.2, which "fails with
  ServiceError when the endpoint returns a non-success status (e.g., 400 malformed query,
  401 missing/invalid credential)", the error being "distinguishable by status code
  category (client error vs. auth error)".  The notebooks hold no code that reads the
  status of an HTTP response; only the schema above names the statuses.
\<close>

definition is_success :: "nat \<Rightarrow> bool" where
  "is_success status = (200 \<le> status \<and> status < 300)"

definition status_category_of :: "nat \<Rightarrow> status_category" where
  "status_category_of status =
     (if status = 401 then AuthError
      else if 400 \<le> status \<and> status < 500 then ClientError
      else OtherError)"

definition service_client :: "nat \<Rightarrow> 'a \<Rightarrow> service_error + 'a" where
  "service_client status body =
     (if is_success status then Inr body
      else Inl (ServiceError status (status_category_of status)))"

section \<open>Fixtures\<close>

text \<open>An empty notebook, two sessions' hash functions, and an image service that answers.\<close>

definition blank :: notebook where
  "blank = \<lparr>files = Map.empty, tables = Map.empty, stdout = [], displayed = [], sent = []\<rparr>"

definition hash_a :: "string \<Rightarrow> int" where
  "hash_a s = 7"

definition hash_b :: "string \<Rightarrow> int" where
  "hash_b s = - 12"

definition image_service :: service where
  "image_service h c = Inr (ImagesResponse [Some ''TWFu''])"

text \<open>
  A Redis server with no index yet, so that \<open>FT.DROPINDEX\<close> is refused; a vector store
  whose second request fails; three reviews, the first without an image, the second
  without text.
\<close>

definition drop_fails :: service where
  "drop_fails h c = (case c of FtDropIndex _ \<Rightarrow> Inl (ExternalError 1) | _ \<Rightarrow> Inr RedisOK)"

definition second_fails :: service where
  "second_fails h c = (if length h = 1 then Inl (ExternalError 500) else Inr (FileObject ''file-1''))"

definition reviews :: dataframe where
  "reviews =
     \<lparr>columns = [''id'', ''month'', ''text'', ''image_path''],
      rows = [[''id'' \<mapsto> ''1'', ''month'' \<mapsto> ''june'', ''text'' \<mapsto> ''Great pizza''],
              [''id'' \<mapsto> ''2'', ''month'' \<mapsto> ''july'', ''image_path'' \<mapsto> ''2.png''],
              [''id'' \<mapsto> ''3'', ''month'' \<mapsto> ''july'', ''text'' \<mapsto> ''Cold'',
               ''image_path'' \<mapsto> ''3.png'']]\<rparr>"

text \<open>
  A vector store that files everything under one id, and a frame with one review that has
  no text and no id column.
\<close>

definition store_ok :: service where
  "store_ok h c = Inr (FileObject ''file-1'')"

definition no_text :: dataframe where
  "no_text = \<lparr>columns = [''text'', ''month''], rows = [[''month'' \<mapsto> ''july'']]\<rparr>"



text \<open>
  A search result that cites the files of the second and third review, and the set
  iteration orders of two interpreter sessions.
\<close>

definition search_response :: "output_item list" where
  "search_response =
     [FileSearchCall,
      Message [OutputText [FileCitation ''context_2_july.txt'',
                           FileCitation ''context_3_july.txt'']]]"

definition session_a :: "string list \<Rightarrow> string list" where
  "session_a names = remdups names"

definition session_b :: "string list \<Rightarrow> string list" where
  "session_b names = rev (remdups names)"

section \<open>Properties of the CSV conversion\<close>

lemma write_data_rows_append:
  "write_data_rows csvfile data = csvfile @ map (\<lambda>row. map Val (dict_values row)) data"
  by (induction data arbitrary: csvfile) (simp_all add: writerow_def)

lemma json_to_csv_nonempty:
  "json_to_csv (first # rest) =
     (map Key (dict_keys first) # map (\<lambda>row. map Val (dict_values row)) (first # rest),
      Inr ''JSON data has been written to output.csv'')"
  by (simp add: json_to_csv_def write_data_rows_append writerow_def)

text \<open>
  C1.  When the conversion produces a table, its first row is the keys of the first record
  in their order, there is one data row per record, and the data row at position \<open>i\<close>
  holds the values of the record at position \<open>i\<close> of the input, in the record's order.
\<close>

theorem csv_header_and_row_order:
  assumes "json_to_csv data = (csvfile, Inr msg)"
  shows "hd csvfile = map Key (dict_keys (hd data))
       \<and> tl csvfile = map (\<lambda>row. map Val (dict_values row)) data
       \<and> length csvfile = Suc (length data)
       \<and> (\<forall>i < length data. csvfile ! Suc i = map Val (dict_values (data ! i)))"
proof (cases data)
  case Nil
  with assms show ?thesis by (simp add: json_to_csv_def)
next
  case (Cons first rest)
  with assms have "csvfile =
      map Key (dict_keys first) # map (\<lambda>row. map Val (dict_values row)) (first # rest)"
    by (simp add: json_to_csv_nonempty)
  then have csvfile: "csvfile =
      map Key (dict_keys (hd data)) # map (\<lambda>row. map Val (dict_values row)) data"
    using Cons by simp
  have "csvfile ! Suc i = map Val (dict_values (data ! i))" if "i < length data" for i
    using that by (simp only: csvfile nth_Cons_Suc nth_map)
  with csvfile show ?thesis by simp
qed

theorem csv_header_and_row_order_witness:
  "hd (fst (json_to_csv
       [[(''account_id'', 1::int), (''number_of_users'', 10)],
        [(''account_id'', 2), (''number_of_users'', 12)],
        [(''account_id'', 3), (''number_of_users'', 7)]]))
     = [Key ''account_id'', Key ''number_of_users'']
   \<and> tl (fst (json_to_csv
       [[(''account_id'', 1::int), (''number_of_users'', 10)],
        [(''account_id'', 2), (''number_of_users'', 12)],
        [(''account_id'', 3), (''number_of_users'', 7)]]))
     = [[Val 1, Val 10], [Val 2, Val 12], [Val 3, Val 7]]"
proof -
  let ?data = "[[(''account_id'', 1::int), (''number_of_users'', 10)],
                [(''account_id'', 2), (''number_of_users'', 12)],
                [(''account_id'', 3), (''number_of_users'', 7)]]"
  have run: "json_to_csv ?data = (fst (json_to_csv ?data),
               Inr ''JSON data has been written to output.csv'')"
    by (simp add: json_to_csv_nonempty)
  show ?thesis
    using csv_header_and_row_order [OF run] by (simp add: dict_keys_def dict_values_def)
qed

text \<open>
  C8.  On the empty list the conversion raises IndexError with no row written, and it
  ends without error exactly on the non-empty lists, where the file then holds the header
  and one row per record.
\<close>

theorem csv_empty_input_fails:
  "json_to_csv ([] :: 'v pydict list) = ([], Inl IndexError)
   \<and> (\<forall>data :: 'v pydict list.
        (\<exists>csvfile msg. json_to_csv data = (csvfile, Inr msg)) = (data \<noteq> []))
   \<and> (\<forall>data :: 'v pydict list. data \<noteq> [] \<longrightarrow>
        length (fst (json_to_csv data)) = Suc (length data))"
proof (intro conjI allI impI)
  show "json_to_csv ([] :: 'v pydict list) = ([], Inl IndexError)"
    by (simp add: json_to_csv_def)
next
  fix data :: "'v pydict list"
  show "(\<exists>csvfile msg. json_to_csv data = (csvfile, Inr msg)) = (data \<noteq> [])"
    by (cases data) (simp_all add: json_to_csv_def Let_def)
next
  fix data :: "'v pydict list"
  assume "data \<noteq> []"
  then obtain first rest where "data = first # rest" by (cases data) auto
  then show "length (fst (json_to_csv data)) = Suc (length data)"
    by (simp add: json_to_csv_nonempty)
qed

theorem csv_empty_input_fails_witness:
  "json_to_csv ([] :: int pydict list) = ([], Inl IndexError)
   \<and> length (fst (json_to_csv [[(''account_id'', 1::int)]])) = 2"
proof -
  have ne: "[[(''account_id'', 1::int)]] \<noteq> []" by simp
  from csv_empty_input_fails [where 'v = int] have
    a: "json_to_csv ([] :: int pydict list) = ([], Inl IndexError)" and
    b: "\<forall>data :: int pydict list. data \<noteq> [] \<longrightarrow>
          length (fst (json_to_csv data)) = Suc (length data)"
    by blast+
  from b ne have "length (fst (json_to_csv [[(''account_id'', 1::int)]])) = Suc (length [[(''account_id'', 1::int)]])"
    by blast
  with a show ?thesis by simp
qed






section \<open>Properties of the base64 codec\<close>

lemma distinct_alphabet: "distinct b64_alphabet"
  unfolding b64_alphabet_def by simp

lemma length_alphabet: "length b64_alphabet = 64"
  unfolding b64_alphabet_def by simp

lemma index_of_nth: "distinct xs \<Longrightarrow> i < length xs \<Longrightarrow> index_of (xs ! i) xs = Some i"
proof (induction xs arbitrary: i)
  case Nil
  then show ?case by simp
next
  case (Cons y ys)
  show ?case
  proof (cases i)
    case 0
    then show ?thesis by simp
  next
    case (Suc j)
    with Cons.prems have "ys ! j \<noteq> y" "j < length ys" "distinct ys" by auto
    with Cons.IH [of j] Suc show ?thesis by simp
  qed
qed

lemma a2b_b2a: "i < 64 \<Longrightarrow> table_a2b_base64 (table_b2a_base64 i) = Some i"
  unfolding table_a2b_base64_def table_b2a_base64_def
  by (rule index_of_nth) (simp_all add: distinct_alphabet length_alphabet)

lemma alphabet_props: "\<forall>c \<in> set b64_alphabet. c \<noteq> CHR ''='' \<and> is_ascii c"
  unfolding b64_alphabet_def is_ascii_def by simp

lemma b2a_props: "i < 64 \<Longrightarrow> table_b2a_base64 i \<noteq> CHR ''='' \<and> is_ascii (table_b2a_base64 i)"
  using alphabet_props nth_mem [of i b64_alphabet]
  by (simp add: table_b2a_base64_def length_alphabet)

lemma is_ascii_pad: "is_ascii (CHR ''='')"
  by (simp add: is_ascii_def)

text \<open>One step of the decoder on an alphabet character, at each position of the group.\<close>

lemma a2b_step0:
  "v < 64 \<Longrightarrow> a2b_base64 0 l p out (table_b2a_base64 v # rest) = a2b_base64 1 v 0 out rest"
  by (simp add: a2b_b2a b2a_props)

lemma a2b_step1:
  "v < 64 \<Longrightarrow> a2b_base64 1 l p out (table_b2a_base64 v # rest)
     = a2b_base64 2 (v mod 16) 0 (out @ [of_nat (l * 4 + v div 16)]) rest"
  by (simp add: a2b_b2a b2a_props)

lemma a2b_step2:
  "v < 64 \<Longrightarrow> a2b_base64 2 l p out (table_b2a_base64 v # rest)
     = a2b_base64 3 (v mod 4) 0 (out @ [of_nat (l * 16 + v div 4)]) rest"
  by (simp add: a2b_b2a b2a_props)

lemma a2b_step3:
  "v < 64 \<Longrightarrow> a2b_base64 3 l p out (table_b2a_base64 v # rest)
     = a2b_base64 0 0 0 (out @ [of_nat (l * 64 + v)]) rest"
  by (simp add: a2b_b2a b2a_props)

lemma a2b_pad2: "a2b_base64 2 l 0 out (CHR ''='' # CHR ''='' # rest) = Inr out"
  by simp

lemma a2b_pad1: "a2b_base64 3 l 0 out (CHR ''='' # rest) = Inr out"
  by simp

text \<open>Splitting three bytes into four sextets loses nothing.\<close>

lemma unat_byte_less: "unat (a :: byte) < 256"
  using unsigned_less [of a, where 'a = nat] by simp

lemma regroup1:
  "y < 256 \<Longrightarrow> (x div 4) * 4 + ((x mod 4) * 16 + y div 16) div 16 = (x :: nat)"
  by (simp add: div_mult2_eq [symmetric])

lemma regroup2:
  assumes "y < 256" "z < 256"
  shows "(((x mod 4) * 16 + y div 16) mod 16) * 16 + ((y mod 16) * 4 + z div 64) div 4
         = (y :: nat)"
proof -
  from assms(1) have "y div 16 < 16" by simp
  then have "y div 16 mod 16 = y div 16" by simp
  with assms(2) show ?thesis by (simp add: div_mult2_eq [symmetric])
qed

lemma regroup3:
  assumes "z < 256"
  shows "(((y mod 16) * 4 + z div 64) mod 4) * 64 + z mod 64 = (z :: nat)"
proof -
  from assms have "z div 64 < 4" by simp
  then have "z div 64 mod 4 = z div 64" by simp
  then show ?thesis by simp
qed

lemma sextets:
  "x < 256 \<Longrightarrow> y < 256 \<Longrightarrow> z < 256 \<Longrightarrow>
   x div 4 < 64 \<and> (x mod 4) * 16 + y div 16 < 64
   \<and> (y mod 16) * 4 + z div 64 < 64 \<and> z mod 64 < (64::nat)"
  by (auto simp: less_mult_imp_div_less)

lemma a2b_b64encode: "a2b_base64 0 l 0 out (b64encode bs) = Inr (out @ bs)"
proof (induction bs arbitrary: l out rule: b64encode.induct)
  case 1
  show ?case by simp
next
  case (2 a)
  let ?x = "unat a"
  have x: "?x < 256" by (rule unat_byte_less)
  have s: "?x div 4 < 64" "?x mod 4 * 16 < 64" using x by auto
  have r: "?x div 4 * 4 + (?x mod 4 * 16) div 16 = ?x" by simp
  show ?case
    by (simp only: b64encode.simps Let_def a2b_step0 [OF s(1)] a2b_step1 [OF s(2)] a2b_pad2 r)
       simp
next
  case (3 a b)
  let ?x = "unat a" and ?y = "unat b"
  have x: "?x < 256" and y: "?y < 256" by (rule unat_byte_less)+
  have s: "?x div 4 < 64" "?x mod 4 * 16 + ?y div 16 < 64" "?y mod 16 * 4 < 64"
    using x y by auto
  have r: "?x div 4 * 4 + (?x mod 4 * 16 + ?y div 16) div 16 = ?x"
    "(?x mod 4 * 16 + ?y div 16) mod 16 * 16 + (?y mod 16 * 4) div 4 = ?y"
    using regroup1 [OF y, of ?x] regroup2 [OF y, of 0 ?x] by simp_all
  show ?case
    by (simp only: b64encode.simps Let_def a2b_step0 [OF s(1)] a2b_step1 [OF s(2)]
          a2b_step2 [OF s(3)] a2b_pad1 r) simp
next
  case (4 a b c rest)
  let ?x = "unat a" and ?y = "unat b" and ?z = "unat c"
  have x: "?x < 256" and y: "?y < 256" and z: "?z < 256" by (rule unat_byte_less)+
  have s: "?x div 4 < 64" "?x mod 4 * 16 + ?y div 16 < 64" "?y mod 16 * 4 + ?z div 64 < 64"
      "?z mod 64 < 64"
    using sextets [OF x y z] by simp_all
  have r: "?x div 4 * 4 + (?x mod 4 * 16 + ?y div 16) div 16 = ?x"
    "(?x mod 4 * 16 + ?y div 16) mod 16 * 16 + (?y mod 16 * 4 + ?z div 64) div 4 = ?y"
    "(?y mod 16 * 4 + ?z div 64) mod 4 * 64 + ?z mod 64 = ?z"
    using regroup1 [OF y, of ?x] regroup2 [OF y z, of ?x] regroup3 [OF z, of ?y] by simp_all
  show ?case
    by (simp only: b64encode.simps Let_def append_Cons append_Nil a2b_step0 [OF s(1)]
          a2b_step1 [OF s(2)] a2b_step2 [OF s(3)] a2b_step3 [OF s(4)] r "4.IH")
       simp
qed

lemma b64encode_ascii: "list_all is_ascii (b64encode bs)"
proof (induction bs rule: b64encode.induct)
  case 1
  show ?case by simp
next
  case (2 a)
  have "unat a div 4 < 64" "unat a mod 4 * 16 < 64"
    using unat_byte_less [of a] by auto
  then show ?case by (simp add: Let_def b2a_props is_ascii_pad)
next
  case (3 a b)
  have "unat a div 4 < 64" "unat a mod 4 * 16 + unat b div 16 < 64" "unat b mod 16 * 4 < 64"
    using unat_byte_less [of a] unat_byte_less [of b] by auto
  then show ?case by (simp add: Let_def b2a_props is_ascii_pad)
next
  case (4 a b c rest)
  from sextets [OF unat_byte_less unat_byte_less unat_byte_less, of a b c] 4
  show ?case by (simp add: Let_def b2a_props)
qed

lemma b64decode_b64encode: "b64decode (b64encode bs) = Inr bs"
  by (simp add: b64decode_def b64encode_ascii a2b_b64encode)

text \<open>
  C5.  Decoding the base64 encoding of any byte sequence, the empty one included, gives
  the sequence back; so the string \<open>encode_image\<close> returns for a file on disk decodes to
  the file's bytes.
\<close>

theorem b64_round_trip:
  "b64decode (b64encode bs) = Inr bs
   \<and> b64decode (b64encode []) = Inr []
   \<and> (\<forall>st p bytes. files st p = Some bytes \<longrightarrow>
        (\<exists>s. encode_image p st = Inr s \<and> b64decode s = Inr bytes))"
proof (intro conjI allI impI)
  show "b64decode (b64encode bs) = Inr bs" by (rule b64decode_b64encode)
  show "b64decode (b64encode []) = Inr []" by (rule b64decode_b64encode)
next
  fix st :: notebook and p bytes
  assume "files st p = Some bytes"
  then show "\<exists>s. encode_image p st = Inr s \<and> b64decode s = Inr bytes"
    by (simp add: encode_image_def b64decode_b64encode)
qed

theorem b64_round_trip_witness:
  "encode_image ''1.png'' \<lparr>files = [''1.png'' \<mapsto> [77, 97, 110, 33]], tables = Map.empty,
       stdout = [], displayed = [], sent = []\<rparr> = Inr ''TWFuIQ==''
   \<and> b64decode ''TWFuIQ=='' = Inr [77, 97, 110, 33]"
proof -
  let ?st = "\<lparr>files = [''1.png'' \<mapsto> [77, 97, 110, 33 :: byte]], tables = Map.empty,
       stdout = [], displayed = [], sent = []\<rparr>"
  have on_disk: "files ?st ''1.png'' = Some [77, 97, 110, 33]" by simp
  have enc: "encode_image ''1.png'' ?st = Inr ''TWFuIQ==''"
    by (simp add: encode_image_def table_b2a_base64_def b64_alphabet_def)
  from b64_round_trip [of "[]"] on_disk
  obtain s where "encode_image ''1.png'' ?st = Inr s" "b64decode s = Inr [77, 97, 110, 33]"
    by blast
  with enc show ?thesis by simp
qed

section \<open>Properties of the image cache\<close>

declare str_nat.simps [simp del]

lemma digit_char_inj: "a < 10 \<Longrightarrow> b < 10 \<Longrightarrow> digit_char a = digit_char b \<Longrightarrow> a = b"
proof -
  assume a: "a < 10" and b: "b < 10" and eq: "digit_char a = digit_char b"
  have d: "distinct ''0123456789''" by simp
  from a b eq d show "a = b"
    unfolding digit_char_def by (simp only: nth_eq_iff_index_eq length_Cons list.size)
qed

lemma digit_char_not_minus: "d < 10 \<Longrightarrow> digit_char d \<noteq> CHR ''-''"
proof -
  assume "d < 10"
  then have "digit_char d \<in> set ''0123456789''"
    unfolding digit_char_def by (intro nth_mem) simp
  then show ?thesis by auto
qed

lemma str_nat_not_Nil: "str_nat n \<noteq> []"
  by (subst str_nat.simps) simp

lemma str_nat_snoc: "str_nat n = (if n < 10 then [] else str_nat (n div 10)) @ [digit_char (n mod 10)]"
  by (subst str_nat.simps) simp

lemma str_nat_inj: "str_nat m = str_nat n \<Longrightarrow> m = n"
proof (induction m arbitrary: n rule: less_induct)
  case (less m)
  from less.prems have eq:
    "(if m < 10 then [] else str_nat (m div 10)) @ [digit_char (m mod 10)]
     = (if n < 10 then [] else str_nat (n div 10)) @ [digit_char (n mod 10)]"
    using str_nat_snoc [of m] str_nat_snoc [of n] by simp
  then have front: "(if m < 10 then [] else str_nat (m div 10))
      = (if n < 10 then [] else str_nat (n div 10))"
    and units: "digit_char (m mod 10) = digit_char (n mod 10)"
    by simp_all
  from units have mod: "m mod 10 = n mod 10"
    by (intro digit_char_inj) simp_all
  show ?case
  proof (cases "m < 10")
    case True
    with front have "n < 10" using str_nat_not_Nil [of "n div 10"] by (auto split: if_splits)
    with True mod show ?thesis by simp
  next
    case False
    with front have n: "\<not> n < 10" using str_nat_not_Nil [of "m div 10"] by (auto split: if_splits)
    with False front have "str_nat (m div 10) = str_nat (n div 10)" by simp
    moreover from False have "m div 10 < m" by simp
    ultimately have "m div 10 = n div 10" by (rule less.IH [rotated])
    with mod show ?thesis by (metis div_mult_mod_eq)
  qed
qed

lemma str_nat_hd_not_minus: "hd (str_nat n) \<noteq> CHR ''-''"
proof (induction n rule: less_induct)
  case (less n)
  show ?case
  proof (cases "n < 10")
    case True
    then show ?thesis by (subst str_nat.simps) (simp add: digit_char_not_minus)
  next
    case False
    then have "n div 10 < n" by simp
    from less.IH [OF this] False show ?thesis
      by (subst str_nat.simps) (simp add: str_nat_not_Nil)
  qed
qed

lemma str_int_inj: "str_int i = str_int j \<Longrightarrow> i = j"
proof -
  assume eq: "str_int i = str_int j"
  have neg_pos: False if "CHR ''-'' # str_nat a = str_nat b" for a b
  proof -
    from that have "hd (str_nat b) = CHR ''-''" by (metis list.sel(1))
    with str_nat_hd_not_minus [of b] show False by simp
  qed
  show "i = j"
  proof (cases "i < 0"; cases "j < 0")
    assume "i < 0" "j < 0"
    with eq have "str_nat (nat (- i)) = str_nat (nat (- j))" by (simp add: str_int_def)
    then have "nat (- i) = nat (- j)" by (rule str_nat_inj)
    with \<open>i < 0\<close> \<open>j < 0\<close> show ?thesis by simp
  next
    assume "i < 0" "\<not> j < 0"
    with eq neg_pos show ?thesis by (simp add: str_int_def)
  next
    assume "\<not> i < 0" "j < 0"
    with eq neg_pos [of "nat (- j)" "nat i"] show ?thesis by (simp add: str_int_def)
  next
    assume "\<not> i < 0" "\<not> j < 0"
    with eq have "str_nat (nat i) = str_nat (nat j)" by (simp add: str_int_def)
    then have "nat i = nat j" by (rule str_nat_inj)
    with \<open>\<not> i < 0\<close> \<open>\<not> j < 0\<close> show ?thesis by simp
  qed
qed

lemma cache_path_eq_iff: "cache_path h1 = cache_path h2 \<longleftrightarrow> h1 prompt = h2 prompt"
  unfolding cache_path_def using str_int_inj by auto

lemma sent_print [simp]: "sent (print line st) = sent st"
  and files_print [simp]: "files (print line st) = files st"
  and sent_display_image [simp]: "sent (display_image p st) = sent st"
  and files_display_image [simp]: "files (display_image p st) = files st"
  by (simp_all add: print_def display_image_def)

lemma generate_cell_hit:
  "cache_path h \<in> dom (files st) \<Longrightarrow>
   generate_cell h ext st =
     (Inr (), display_image (cache_path h) (print (''Loading from cache: '' @ cache_path h) st))"
  by (simp add: generate_cell_def)

lemma generate_cell_miss_sent:
  "cache_path h \<notin> dom (files st) \<Longrightarrow>
   sent (snd (generate_cell h ext st)) = sent st @ [ImagesGenerate ''gpt-image-1'' prompt ''1024x1024'']"
  by (simp add: generate_cell_def external_def Let_def split: sum.splits)

lemma generate_cell_miss_files:
  "cache_path h \<notin> dom (files st) \<Longrightarrow> generate_cell h ext st = (Inr (), st') \<Longrightarrow>
   \<exists>bytes. files st' = (files st)(cache_path h \<mapsto> bytes)"
  by (auto simp: generate_cell_def external_def Let_def split: sum.splits)

text \<open>
  C10.  The cache file is named after \<open>hash(prompt)\<close>, and a different hash value gives a
  different file name.  So when a session whose hash of the prompt differs from that of the
  session that filled the cache runs the cell, it does not find the cached file and sends
  the image request again; with the same hash it would have loaded the file and sent
  nothing.
\<close>

theorem cache_path_follows_session_hash:
  assumes "h1 prompt \<noteq> h2 prompt"
    and "cache_path h1 \<notin> dom (files st0)" and "cache_path h2 \<notin> dom (files st0)"
    and "generate_cell h1 ext st0 = (Inr (), st1)"
  shows "cache_path h1 \<noteq> cache_path h2
       \<and> cache_path h1 \<in> dom (files st1)
       \<and> cache_path h2 \<notin> dom (files st1)
       \<and> sent (snd (generate_cell h2 ext' st1))
           = sent st1 @ [ImagesGenerate ''gpt-image-1'' prompt ''1024x1024'']
       \<and> sent (snd (generate_cell h1 ext' st1)) = sent st1"
proof -
  from assms(1) have ne: "cache_path h1 \<noteq> cache_path h2"
    by (simp add: cache_path_eq_iff)
  from generate_cell_miss_files [OF assms(2) assms(4)]
  obtain bytes where files1: "files st1 = (files st0)(cache_path h1 \<mapsto> bytes)" ..
  from files1 have hit: "cache_path h1 \<in> dom (files st1)" by simp
  from files1 ne assms(3) have miss: "cache_path h2 \<notin> dom (files st1)" by auto
  from generate_cell_miss_sent [OF miss] generate_cell_hit [OF hit] ne hit miss
  show ?thesis by simp
qed

lemma generate_first_run:
  "generate_cell hash_a image_service blank =
   (Inr (), \<lparr>files = [cache_path hash_a \<mapsto> [77, 97, 110]], tables = Map.empty,
      stdout = [''Generated and cached: '' @ cache_path hash_a],
      displayed = [cache_path hash_a],
      sent = [ImagesGenerate ''gpt-image-1'' prompt ''1024x1024'']\<rparr>)"
  by (simp add: generate_cell_def blank_def external_def image_service_def
      b64decode_def is_ascii_def table_a2b_base64_def b64_alphabet_def print_def display_image_def)

theorem cache_path_follows_session_hash_witness:
  "hash_a prompt \<noteq> hash_b prompt
   \<and> cache_path hash_a = ''.local_cache/7.png''
   \<and> cache_path hash_b = ''.local_cache/-12.png''
   \<and> sent (snd (generate_cell hash_b image_service
                  (snd (generate_cell hash_a image_service blank))))
       = [ImagesGenerate ''gpt-image-1'' prompt ''1024x1024'',
          ImagesGenerate ''gpt-image-1'' prompt ''1024x1024'']
   \<and> sent (snd (generate_cell hash_a image_service
                  (snd (generate_cell hash_a image_service blank))))
       = [ImagesGenerate ''gpt-image-1'' prompt ''1024x1024'']"
proof -
  let ?st1 = "snd (generate_cell hash_a image_service blank)"
  have differ: "hash_a prompt \<noteq> hash_b prompt"
    by (simp add: hash_a_def hash_b_def)
  have fresh: "cache_path hash_a \<notin> dom (files blank)" "cache_path hash_b \<notin> dom (files blank)"
    by (simp_all add: blank_def)
  have run: "generate_cell hash_a image_service blank = (Inr (), ?st1)"
    by (simp add: generate_first_run)
  have names: "cache_path hash_a = ''.local_cache/7.png''"
      "cache_path hash_b = ''.local_cache/-12.png''"
    by (simp_all add: cache_path_def hash_a_def hash_b_def str_int_def str_nat.simps
        digit_char_def)
  have sent1: "sent ?st1 = [ImagesGenerate ''gpt-image-1'' prompt ''1024x1024'']"
    by (simp add: generate_first_run)
  from cache_path_follows_session_hash [OF differ fresh run, of image_service] differ names sent1
  show ?thesis by simp
qed

section \<open>External failures\<close>

lemma fails_fast_Nil [simp]: "fails_fast ext before [] outcome"
  by (simp add: fails_fast_def)

lemma fails_fast_Cons:
  "fails_fast ext before (c # cs) outcome \<longleftrightarrow>
     (\<forall>e. ext before c = Inl e \<longrightarrow> cs = [] \<and> outcome = Some e)
     \<and> fails_fast ext (before @ [c]) cs outcome"
proof
  assume ff: "fails_fast ext before (c # cs) outcome"
  have "\<forall>e. ext before c = Inl e \<longrightarrow> cs = [] \<and> outcome = Some e"
    using ff [unfolded fails_fast_def, rule_format, of 0] by simp
  moreover have "fails_fast ext (before @ [c]) cs outcome"
    unfolding fails_fast_def
  proof (intro allI impI)
    fix i e
    assume "i < length cs" "ext ((before @ [c]) @ take i cs) (cs ! i) = Inl e"
    with ff [unfolded fails_fast_def, rule_format, of "Suc i" e]
    show "Suc i = length cs \<and> outcome = Some e" by simp
  qed
  ultimately show "(\<forall>e. ext before c = Inl e \<longrightarrow> cs = [] \<and> outcome = Some e)
     \<and> fails_fast ext (before @ [c]) cs outcome" ..
next
  assume r: "(\<forall>e. ext before c = Inl e \<longrightarrow> cs = [] \<and> outcome = Some e)
     \<and> fails_fast ext (before @ [c]) cs outcome"
  show "fails_fast ext before (c # cs) outcome"
    unfolding fails_fast_def
  proof (intro allI impI)
    fix i e
    assume i: "i < length (c # cs)" and f: "ext (before @ take i (c # cs)) ((c # cs) ! i) = Inl e"
    show "Suc i = length (c # cs) \<and> outcome = Some e"
    proof (cases i)
      case 0
      with f r show ?thesis by simp
    next
      case (Suc j)
      with i f r [THEN conjunct2, unfolded fails_fast_def, rule_format, of j e]
      show ?thesis by simp
    qed
  qed
qed

lemma call_step_refl: "sent st' = sent st \<Longrightarrow> call_step ext st st' outcome"
  by (simp add: call_step_def)

lemma call_step_external_fail:
  "external ext c st = (Inl e, st') \<Longrightarrow> call_step ext st st' (Some e)"
  by (auto simp: call_step_def external_def fails_fast_Cons)

lemma call_step_external_ok:
  assumes "external ext c st = (Inr r, st1)" and "call_step ext st1 st' outcome"
  shows "call_step ext st st' outcome"
proof -
  from assms(1) have ok: "ext (sent st) c = Inr r" and s1: "sent st1 = sent st @ [c]"
    by (auto simp: external_def)
  from assms(2) obtain new where "sent st' = sent st1 @ new"
      "fails_fast ext (sent st1) new outcome"
    by (auto simp: call_step_def)
  with ok s1 have "sent st' = sent st @ (c # new)" "fails_fast ext (sent st) (c # new) outcome"
    by (simp_all add: fails_fast_Cons)
  then show ?thesis unfolding call_step_def by blast
qed

lemma call_step_trans_silent:
  "sent st1 = sent st \<Longrightarrow> call_step ext st1 st' outcome \<Longrightarrow> call_step ext st st' outcome"
  by (simp add: call_step_def)

lemma analyze_image_sentiment_step:
  "analyze_image_sentiment ext p st = (res, st') \<Longrightarrow> call_step ext st st' (failure_of res)"
  unfolding analyze_image_sentiment_def
  by (auto split: sum.splits prod.splits
      intro: call_step_refl call_step_external_fail
             call_step_external_ok [OF _ call_step_refl [OF refl]])


lemma fails_fast_append:
  "fails_fast ext before xs None \<Longrightarrow> fails_fast ext (before @ xs) ys outcome
   \<Longrightarrow> fails_fast ext before (xs @ ys) outcome"
proof (induction xs arbitrary: before)
  case Nil
  then show ?case by simp
next
  case (Cons c cs)
  from Cons.prems(1) have ok: "\<forall>e. ext before c \<noteq> Inl e"
    and rest: "fails_fast ext (before @ [c]) cs None"
    by (auto simp: fails_fast_Cons)
  from Cons.prems(2) have "fails_fast ext ((before @ [c]) @ cs) ys outcome" by simp
  from Cons.IH [OF rest this] ok show ?case by (simp add: fails_fast_Cons)
qed

lemma call_step_trans:
  assumes "call_step ext st st1 None" and "call_step ext st1 st' outcome"
  shows "call_step ext st st' outcome"
proof -
  from assms(1) obtain xs where xs: "sent st1 = sent st @ xs" "fails_fast ext (sent st) xs None"
    by (auto simp: call_step_def)
  from assms(2) obtain ys where ys: "sent st' = sent st1 @ ys"
      "fails_fast ext (sent st1) ys outcome"
    by (auto simp: call_step_def)
  from xs ys have "sent st' = sent st @ (xs @ ys)" by simp
  moreover from xs ys have "fails_fast ext (sent st) (xs @ ys) outcome"
    by (intro fails_fast_append) simp_all
  ultimately show ?thesis unfolding call_step_def by blast
qed

lemma merge_loop_step:
  "merge_loop ext cols todo df st = (res, df', st') \<Longrightarrow> call_step ext st st' (failure_of res)"
proof (induction todo arbitrary: df st)
  case Nil
  then show ?case by (auto intro: call_step_refl)
next
  case (Cons a todo)
  obtain idx row where a: "a = (idx, row)" by (cases a)
  show ?case
  proof (cases "series_get cols row ''image_path''")
    case (Inl e)
    with Cons.prems a show ?thesis by (auto intro: call_step_refl)
  next
    case (Inr v)
    show ?thesis
    proof (cases v)
      case None
      with Inr Cons.prems a show ?thesis by (auto intro: call_step_refl)
    next
      case (Some name)
      obtain r st1 where an: "analyze_image_sentiment ext (image_file ''.local_cache'' name) st = (r, st1)"
        by (cases "analyze_image_sentiment ext (image_file ''.local_cache'' name) st")
      note step1 = analyze_image_sentiment_step [OF an]
      show ?thesis
      proof (cases r)
        case (Inl e)
        with Cons.prems a Inr Some an step1 show ?thesis by auto
      next
        case sent_ok: (Inr sentiment)
        show ?thesis
        proof (cases "series_get cols row ''text''")
          case (Inl e)
          with Cons.prems a Inr Some an sent_ok have "st' = st1" "res = Inl e" by auto
          with step1 sent_ok show ?thesis
            by (auto intro: call_step_trans call_step_refl)
        next
          case tx: (Inr t0)
          let ?v = "case t0 of Some t \<Rightarrow> t @ '' '' @ sentiment | None \<Rightarrow> sentiment"
          from Cons.prems a \<open>series_get cols row ''image_path'' = Inr v\<close> Some an sent_ok tx
          have "merge_loop ext cols todo (set_at df idx ''full_sentiment'' ?v)
                  (print (''Processed '' @ name) st1) = (res, df', st')"
            by (simp add: Let_def)
          from Cons.IH [OF this]
          have "call_step ext st1 st' (failure_of res)"
            by (rule call_step_trans_silent [rotated]) simp
          with step1 sent_ok show ?thesis by (auto intro: call_step_trans)
        qed
      qed
    qed
  qed
qed


lemma call_step_then_silent:
  "call_step ext st st1 None \<Longrightarrow> sent st' = sent st1 \<Longrightarrow> call_step ext st st' outcome"
  by (erule call_step_trans) (rule call_step_refl)

lemma merge_cell_step:
  assumes "merge_cell ext df st = (res, df', st')"
  shows "call_step ext st st' (failure_of res)"
proof (cases "image_rows df")
  case (Inl e)
  with assms show ?thesis by (auto simp: merge_cell_def intro: call_step_refl)
next
  case (Inr todo)
  obtain r df1 st1 where loop: "merge_loop ext (columns df) todo df st = (r, df1, st1)"
    by (cases "merge_loop ext (columns df) todo df st")
  note step = merge_loop_step [OF loop]
  show ?thesis
  proof (cases r)
    case (Inl e)
    with assms Inr loop step show ?thesis by (auto simp: merge_cell_def)
  next
    case ok: (Inr u)
    with step have "call_step ext st st1 None" by simp
    moreover from assms Inr loop ok have "sent st' = sent st1"
      by (auto simp: merge_cell_def Let_def split: if_splits)
    ultimately show ?thesis by (rule call_step_then_silent)
  qed
qed

lemma upload_loop_step:
  "upload_loop ext vs cols col todo file_ids st = (res, st')
   \<Longrightarrow> call_step ext st st' (failure_of res)"
proof (induction todo arbitrary: file_ids st)
  case Nil
  then show ?case by (auto intro: call_step_refl)
next
  case (Cons a todo)
  obtain i row where a: "a = (i, row)" by (cases a)
  show ?case
  proof (cases "series_get cols row col")
    case (Inl e)
    with Cons.prems a show ?thesis by (auto intro: call_step_refl)
  next
    case (Inr v)
    let ?c = "FilesUpload vs
        (''context_'' @ row_get cols row ''id'' (str_nat i) @ ''_''
           @ row_get cols row ''month'' [] @ ''.txt'')
        (case v of None \<Rightarrow> ''No information available.'' | Some s \<Rightarrow> s)"
    obtain r st1 where up: "external ext ?c st = (r, st1)"
      by (cases "external ext ?c st")
    show ?thesis
    proof (cases r)
      case (Inl e)
      with Cons.prems a Inr up have "res = Inl e" "st' = st1" by (auto simp: Let_def)
      with up Inl show ?thesis by (auto intro: call_step_external_fail)
    next
      case ok: (Inr f)
      show ?thesis
      proof (cases "file_id_of f")
        case (Inl e)
        with Cons.prems a Inr up ok have "res = Inl e" "st' = st1" by (auto simp: Let_def)
        with up ok show ?thesis
          by (auto intro: call_step_external_ok call_step_refl)
      next
        case fid: (Inr fid)
        with Cons.prems a Inr up ok
        have "upload_loop ext vs cols col todo (file_ids @ [fid]) st1 = (res, st')"
          by (simp add: Let_def)
        from Cons.IH [OF this] up ok show ?thesis
          by (auto intro: call_step_external_ok)
      qed
    qed
  qed
qed

lemma update_loop_step:
  "update_loop ext vs cols file_ids todo st = (res, st')
   \<Longrightarrow> call_step ext st st' (failure_of res)"
proof (induction todo arbitrary: st)
  case Nil
  then show ?case by (auto intro: call_step_refl)
next
  case (Cons a todo)
  obtain i row where a: "a = (i, row)" by (cases a)
  show ?case
  proof (cases "length file_ids \<le> i")
    case True
    with Cons.prems a show ?thesis by (auto intro: call_step_refl)
  next
    case inrange: False
    show ?thesis
    proof (cases "series_get cols row ''month''")
      case (Inl e)
      with Cons.prems a inrange show ?thesis by (auto intro: call_step_refl)
    next
      case (Inr month)
      obtain r st1 where up: "external ext (FilesUpdate vs (file_ids ! i) month) st = (r, st1)"
        by (cases "external ext (FilesUpdate vs (file_ids ! i) month) st")
      show ?thesis
      proof (cases r)
        case (Inl e)
        with Cons.prems a inrange Inr up have "res = Inl e" "st' = st1" by auto
        with up Inl show ?thesis by (auto intro: call_step_external_fail)
      next
        case ok: (Inr f)
        with Cons.prems a inrange Inr up
        have "update_loop ext vs cols file_ids todo st1 = (res, st')" by simp
        from Cons.IH [OF this] up ok show ?thesis
          by (auto intro: call_step_external_ok)
      qed
    qed
  qed
qed

lemma upload_files_to_vector_store_step:
  assumes "upload_files_to_vector_store ext vs df col st = (res, st')"
  shows "call_step ext st st' (failure_of res)"
proof -
  obtain r st1 where up:
    "upload_loop ext vs (columns df) col (enumerate 0 (rows df)) [] st = (r, st1)"
    by (cases "upload_loop ext vs (columns df) col (enumerate 0 (rows df)) [] st")
  note step1 = upload_loop_step [OF up]
  show ?thesis
  proof (cases r)
    case (Inl e)
    with assms up step1 show ?thesis by (auto simp: upload_files_to_vector_store_def)
  next
    case (Inr file_ids)
    with assms up
    have "update_loop ext vs (columns df) file_ids (enumerate 0 (rows df)) st1 = (res, st')"
      by (simp add: upload_files_to_vector_store_def)
    from update_loop_step [OF this] step1 Inr show ?thesis
      by (auto intro: call_step_trans)
  qed
qed

lemma generate_cell_step:
  assumes "generate_cell h ext st = (res, st')"
  shows "call_step ext st st' (failure_of res)"
proof (cases "cache_path h \<in> dom (files st)")
  case True
  with assms show ?thesis
    by (auto simp: generate_cell_def Let_def intro: call_step_refl)
next
  case False
  let ?c = "ImagesGenerate ''gpt-image-1'' prompt ''1024x1024''"
  obtain r st1 where gen: "external ext ?c st = (r, st1)"
    by (cases "external ext ?c st")
  show ?thesis
  proof (cases r)
    case (Inl e)
    with assms False gen have "res = Inl e" "st' = st1" by (auto simp: generate_cell_def)
    with gen Inl show ?thesis by (auto intro: call_step_external_fail)
  next
    case (Inr response)
    with assms False gen have "sent st' = sent st1"
      by (auto simp: generate_cell_def Let_def split: sum.splits)
    then have "call_step ext st1 st' (failure_of res)" by (rule call_step_refl)
    with gen Inr show ?thesis by (auto intro: call_step_external_ok)
  qed
qed

lemma create_index_cell_eq:
  "create_index_cell ext dim st =
     (ext (sent st @ [FtDropIndex ''idx'']) (FtCreateIndex ''idx'' dim),
      st\<lparr>sent := sent st @ [FtDropIndex ''idx'', FtCreateIndex ''idx'' dim]\<rparr>)"
  by (simp add: create_index_cell_def external_def split: sum.splits)

lemma display_loop_sent:
  "sent (snd (display_loop mapping cache_dir names acc st)) = sent st"
  by (induction names arbitrary: acc st) (auto simp: Let_def split: option.splits)

lemma display_retrieved_images_sent:
  "sent (snd (display_retrieved_images set_iter mapping response cache_dir st)) = sent st"
  by (simp add: display_retrieved_images_def display_loop_sent split: sum.splits)


text \<open>
  C3, as stated, fails in the index cell: \<open>dropindex\<close> is refused by the server, the
  \<open>except: pass\<close> drops the error, the cell goes on to \<open>create_index\<close> and ends without
  error.
\<close>

theorem dropindex_failure_counterexample:
  "drop_fails [] (FtDropIndex ''idx'') = Inl (ExternalError 1)
   \<and> create_index_cell drop_fails 1536 blank
       = (Inr RedisOK, blank\<lparr>sent := [FtDropIndex ''idx'', FtCreateIndex ''idx'' 1536]\<rparr>)
   \<and> \<not> call_step drop_fails blank (snd (create_index_cell drop_fails 1536 blank))
         (failure_of (fst (create_index_cell drop_fails 1536 blank)))"
  by (simp add: create_index_cell_eq call_step_def fails_fast_Cons drop_fails_def blank_def)

text \<open>
  C3, amended.  In \<open>analyze_image_sentiment\<close>, the merge cell,
  \<open>upload_files_to_vector_store\<close> and the image-generation cell, a request that the
  service answers with an error is the last request the operation sends, and that error
  is the operation's outcome: nothing is caught, retried or replaced.  In the index cell
  the outcome is the answer to \<open>create_index\<close>, so its failure propagates, while the
  answer to \<open>dropindex\<close> is ignored.  \<open>display_retrieved_images\<close> sends no request.
\<close>

theorem external_failures_propagate:
  "call_step ext st (snd (analyze_image_sentiment ext p st))
       (failure_of (fst (analyze_image_sentiment ext p st)))
   \<and> call_step ext st (snd (snd (merge_cell ext df st)))
       (failure_of (fst (merge_cell ext df st)))
   \<and> call_step ext st (snd (upload_files_to_vector_store ext vs df col st))
       (failure_of (fst (upload_files_to_vector_store ext vs df col st)))
   \<and> call_step ext st (snd (generate_cell h ext st))
       (failure_of (fst (generate_cell h ext st)))
   \<and> create_index_cell ext dim st
       = (ext (sent st @ [FtDropIndex ''idx'']) (FtCreateIndex ''idx'' dim),
          st\<lparr>sent := sent st @ [FtDropIndex ''idx'', FtCreateIndex ''idx'' dim]\<rparr>)
   \<and> sent (snd (display_retrieved_images set_iter mapping response cache_dir st)) = sent st"
proof (intro conjI)
  show "call_step ext st (snd (analyze_image_sentiment ext p st))
       (failure_of (fst (analyze_image_sentiment ext p st)))"
    by (rule analyze_image_sentiment_step) simp
  show "call_step ext st (snd (snd (merge_cell ext df st)))
       (failure_of (fst (merge_cell ext df st)))"
    by (rule merge_cell_step [where df' = "fst (snd (merge_cell ext df st))"]) simp
  show "call_step ext st (snd (upload_files_to_vector_store ext vs df col st))
       (failure_of (fst (upload_files_to_vector_store ext vs df col st)))"
    by (rule upload_files_to_vector_store_step) simp
  show "call_step ext st (snd (generate_cell h ext st))
       (failure_of (fst (generate_cell h ext st)))"
    by (rule generate_cell_step) simp
  show "create_index_cell ext dim st
       = (ext (sent st @ [FtDropIndex ''idx'']) (FtCreateIndex ''idx'' dim),
          st\<lparr>sent := sent st @ [FtDropIndex ''idx'', FtCreateIndex ''idx'' dim]\<rparr>)"
    by (rule create_index_cell_eq)
  show "sent (snd (display_retrieved_images set_iter mapping response cache_dir st)) = sent st"
    by (rule display_retrieved_images_sent)
qed

lemma upload_second_fails:
  "upload_files_to_vector_store second_fails ''vs_1'' reviews ''text'' blank =
     (Inl (ExternalError 500),
      blank\<lparr>sent := [FilesUpload ''vs_1'' ''context_1_june.txt'' ''Great pizza'',
                      FilesUpload ''vs_1'' ''context_2_july.txt'' ''No information available.'']\<rparr>)"
  by (simp add: upload_files_to_vector_store_def reviews_def enumerate_eq_zip upt_rec
      series_get_def row_get_def external_def second_fails_def blank_def)

theorem external_failures_propagate_witness:
  "second_fails [FilesUpload ''vs_1'' ''context_1_june.txt'' ''Great pizza'']
       (FilesUpload ''vs_1'' ''context_2_july.txt'' ''No information available.'')
     = Inl (ExternalError 500)
   \<and> fst (upload_files_to_vector_store second_fails ''vs_1'' reviews ''text'' blank)
     = Inl (ExternalError 500)
   \<and> fails_fast second_fails []
       [FilesUpload ''vs_1'' ''context_1_june.txt'' ''Great pizza'',
        FilesUpload ''vs_1'' ''context_2_july.txt'' ''No information available.'']
       (Some (ExternalError 500))"
proof -
  have sent_blank: "sent blank = []" by (simp add: blank_def)
  from external_failures_propagate [where ext = second_fails and st = blank
      and vs = "''vs_1''" and df = reviews and col = "''text''"]
  have "call_step second_fails blank
          (snd (upload_files_to_vector_store second_fails ''vs_1'' reviews ''text'' blank))
          (failure_of (fst (upload_files_to_vector_store second_fails ''vs_1'' reviews ''text'' blank)))"
    by blast
  then have "fails_fast second_fails []
       [FilesUpload ''vs_1'' ''context_1_june.txt'' ''Great pizza'',
        FilesUpload ''vs_1'' ''context_2_july.txt'' ''No information available.'']
       (Some (ExternalError 500))"
    using sent_blank by (simp add: upload_second_fails call_step_def)
  then show ?thesis
    by (simp add: upload_second_fails second_fails_def)
qed

section \<open>Missing fields\<close>

lemma call_step_grows: "call_step ext st st' outcome \<Longrightarrow> \<exists>new. sent st' = sent st @ new"
  by (auto simp: call_step_def)

lemma upload_loop_first:
  assumes "upload_loop ext vs cols col ((i, row) # rest) file_ids st = (res, st')"
    and "series_get cols row col = Inr v"
  shows "\<exists>more. sent st' = sent st @
           FilesUpload vs (''context_'' @ row_get cols row ''id'' (str_nat i) @ ''_''
                             @ row_get cols row ''month'' [] @ ''.txt'')
             (case v of None \<Rightarrow> ''No information available.'' | Some s \<Rightarrow> s) # more"
proof -
  let ?c = "FilesUpload vs (''context_'' @ row_get cols row ''id'' (str_nat i) @ ''_''
                             @ row_get cols row ''month'' [] @ ''.txt'')
             (case v of None \<Rightarrow> ''No information available.'' | Some s \<Rightarrow> s)"
  obtain r st1 where up: "external ext ?c st = (r, st1)"
    by (cases "external ext ?c st")
  then have s1: "sent st1 = sent st @ [?c]" by (auto simp: external_def)
  show ?thesis
  proof (cases r)
    case (Inl e)
    with assms up have "st' = st1" by (simp add: Let_def)
    with s1 show ?thesis by simp
  next
    case (Inr f)
    show ?thesis
    proof (cases "file_id_of f")
      case (Inl e)
      with assms up Inr have "st' = st1" by (simp add: Let_def)
      with s1 show ?thesis by simp
    next
      case fid: (Inr fid)
      with assms up Inr
      have "upload_loop ext vs cols col rest (file_ids @ [fid]) st1 = (res, st')"
        by (simp add: Let_def)
      from call_step_grows [OF upload_loop_step [OF this]] s1 show ?thesis by auto
    qed
  qed
qed

lemma enumerate_Cons0: "enumerate 0 (x # xs) = (0, x) # enumerate 1 xs"
  by simp

text \<open>
  C4, as stated, fails in \<open>upload_files_to_vector_store\<close>: the review has no text, and
  a file holding the stand-in text is uploaded, under a name built from the row's position
  in place of the id the frame does not have.
\<close>

theorem missing_field_counterexample:
  "series_get (columns no_text) (rows no_text ! 0) ''text'' = Inr None
   \<and> ''id'' \<notin> set (columns no_text)
   \<and> upload_files_to_vector_store store_ok ''vs_1'' no_text ''text'' blank
       = (Inr (),
          blank\<lparr>sent := [FilesUpload ''vs_1'' ''context_0_july.txt'' ''No information available.'',
                          FilesUpdate ''vs_1'' ''file-1'' (Some ''july'')]\<rparr>)"
  by (simp add: upload_files_to_vector_store_def no_text_def series_get_def row_get_def
      external_def store_ok_def blank_def str_nat.simps digit_char_def)

text \<open>
  C4, amended.  \<open>analyze_image_sentiment\<close> raises before any request is sent when the
  image file cannot be read, and \<open>upload_files_to_vector_store\<close> raises KeyError before any
  request is sent when the frame has rows but not the content column.  A row whose content
  value is null is no error: the first request uploads the text "No information
  available." for it, under a file name that takes the row's position when the frame has
  no id column and the empty string when it has no month column.
\<close>

theorem missing_fields_fail_or_default:
  "(files st p = None \<longrightarrow>
      analyze_image_sentiment ext p st = (Inl (FileNotFoundError p), st))
   \<and> (col \<notin> set (columns df) \<and> rows df \<noteq> [] \<longrightarrow>
      upload_files_to_vector_store ext vs df col st = (Inl (KeyError col), st))
   \<and> (col \<in> set (columns df) \<and> rows df = row # rest \<and> row col = None \<longrightarrow>
      (\<exists>more. sent (snd (upload_files_to_vector_store ext vs df col st)) = sent st @
         FilesUpload vs (''context_'' @ row_get (columns df) row ''id'' ''0'' @ ''_''
                           @ row_get (columns df) row ''month'' [] @ ''.txt'')
           ''No information available.'' # more))"
proof (intro conjI impI)
  assume "files st p = None"
  then show "analyze_image_sentiment ext p st = (Inl (FileNotFoundError p), st)"
    by (simp add: analyze_image_sentiment_def encode_image_def)
next
  assume "col \<notin> set (columns df) \<and> rows df \<noteq> []"
  then obtain r rs where "rows df = r # rs" "col \<notin> set (columns df)"
    by (cases "rows df") auto
  then show "upload_files_to_vector_store ext vs df col st = (Inl (KeyError col), st)"
    by (simp add: upload_files_to_vector_store_def series_get_def)
next
  assume a: "col \<in> set (columns df) \<and> rows df = row # rest \<and> row col = None"
  let ?todo = "(0, row) # enumerate 1 rest"
  obtain r st1 where up: "upload_loop ext vs (columns df) col ?todo [] st = (r, st1)"
    by (cases "upload_loop ext vs (columns df) col ?todo [] st")
  from a have get: "series_get (columns df) row col = Inr None"
    by (simp add: series_get_def)
  have zero: "str_nat 0 = ''0''" by (simp add: str_nat.simps digit_char_def)
  from upload_loop_first [OF up get] zero obtain more where
    s1: "sent st1 = sent st @
         FilesUpload vs (''context_'' @ row_get (columns df) row ''id'' ''0'' @ ''_''
                           @ row_get (columns df) row ''month'' [] @ ''.txt'')
           ''No information available.'' # more"
    by auto
  show "\<exists>more. sent (snd (upload_files_to_vector_store ext vs df col st)) = sent st @
         FilesUpload vs (''context_'' @ row_get (columns df) row ''id'' ''0'' @ ''_''
                           @ row_get (columns df) row ''month'' [] @ ''.txt'')
           ''No information available.'' # more"
  proof (cases r)
    case (Inl e)
    with a up s1 show ?thesis
      by (simp add: upload_files_to_vector_store_def)
  next
    case (Inr file_ids)
    obtain r2 st2 where
      upd: "update_loop ext vs (columns df) file_ids ?todo st1 = (r2, st2)"
      by (cases "update_loop ext vs (columns df) file_ids ?todo st1")
    from call_step_grows [OF update_loop_step [OF upd]] obtain new where
      "sent st2 = sent st1 @ new" ..
    with a up Inr upd s1 show ?thesis
      by (simp add: upload_files_to_vector_store_def)
  qed
qed


theorem missing_fields_fail_or_default_witness:
  "analyze_image_sentiment store_ok ''.local_cache/images/9.png'' blank
     = (Inl (FileNotFoundError ''.local_cache/images/9.png''), blank)
   \<and> upload_files_to_vector_store store_ok ''vs_1'' no_text ''full_sentiment'' blank
     = (Inl (KeyError ''full_sentiment''), blank)
   \<and> (\<exists>more. sent (snd (upload_files_to_vector_store store_ok ''vs_1'' no_text ''text'' blank))
         = FilesUpload ''vs_1'' ''context_0_july.txt'' ''No information available.'' # more)"
proof -
  have no_file: "files blank ''.local_cache/images/9.png'' = None"
    by (simp add: blank_def)
  have no_col: "''full_sentiment'' \<notin> set (columns no_text) \<and> rows no_text \<noteq> []"
    by (simp add: no_text_def)
  have null: "''text'' \<in> set (columns no_text) \<and> rows no_text = [''month'' \<mapsto> ''july''] # []
      \<and> [''month'' \<mapsto> ''july''] ''text'' = None"
    by (simp add: no_text_def)
  have sent_blank: "sent blank = []" by (simp add: blank_def)
  have name: "''context_'' @ row_get (columns no_text) [''month'' \<mapsto> ''july''] ''id'' ''0'' @ ''_''
      @ row_get (columns no_text) [''month'' \<mapsto> ''july''] ''month'' [] @ ''.txt''
      = ''context_0_july.txt''"
    by (simp add: row_get_def no_text_def)
  from missing_fields_fail_or_default
    [where st = blank and p = "''.local_cache/images/9.png''" and ext = store_ok] no_file
  have a: "analyze_image_sentiment store_ok ''.local_cache/images/9.png'' blank
     = (Inl (FileNotFoundError ''.local_cache/images/9.png''), blank)"
    by blast
  from missing_fields_fail_or_default
    [where st = blank and col = "''full_sentiment''" and df = no_text and ext = store_ok
       and vs = "''vs_1''"] no_col
  have b: "upload_files_to_vector_store store_ok ''vs_1'' no_text ''full_sentiment'' blank
     = (Inl (KeyError ''full_sentiment''), blank)"
    by blast
  from missing_fields_fail_or_default
    [where st = blank and col = "''text''" and df = no_text and ext = store_ok
       and vs = "''vs_1''" and row = "[''month'' \<mapsto> ''july'']" and rest = "[]"] null
  have "\<exists>more. sent (snd (upload_files_to_vector_store store_ok ''vs_1'' no_text ''text'' blank))
         = sent blank @ FilesUpload ''vs_1''
             (''context_'' @ row_get (columns no_text) [''month'' \<mapsto> ''july''] ''id'' ''0'' @ ''_''
                @ row_get (columns no_text) [''month'' \<mapsto> ''july''] ''month'' [] @ ''.txt'')
             ''No information available.'' # more"
    by blast
  then have c: "\<exists>more. sent (snd (upload_files_to_vector_store store_ok ''vs_1'' no_text ''text'' blank))
         = FilesUpload ''vs_1'' ''context_0_july.txt'' ''No information available.'' # more"
    by (simp only: name sent_blank append_Nil)
  from a b c show ?thesis by blast
qed

section \<open>Properties of the merge cell\<close>

















section \<open>Properties of the image display\<close>

lemma display_loop_result:
  "fst (display_loop mapping cache_dir names acc st)
     = acc @ map (\<lambda>f. (f, image_file cache_dir (the (mapping f))))
               (filter (has_image mapping) names)"
  by (induction names arbitrary: acc st)
     (auto simp: has_image_def Let_def split: option.splits)

lemma display_loop_stdout:
  "stdout (snd (display_loop mapping cache_dir names acc st))
     = stdout st @ map (\<lambda>f. ''Displaying image for '' @ f @ '':'')
                     (filter (has_image mapping) names)"
  by (induction names arbitrary: acc st)
     (auto simp: has_image_def Let_def print_def display_image_def split: option.splits)

lemma display_loop_displayed:
  "displayed (snd (display_loop mapping cache_dir names acc st))
     = displayed st @ map (\<lambda>f. image_file cache_dir (the (mapping f)))
                        (filter (has_image mapping) names)"
  by (induction names arbitrary: acc st)
     (auto simp: has_image_def Let_def print_def display_image_def split: option.splits)

lemma iterates_mset:
  assumes "iterates it1 names" and "iterates it2 names"
  shows "mset (it1 names) = mset (it2 names)"
  using assms unfolding iterates_def by (metis set_eq_iff_mset_eq_distinct)

lemma iterates_session_a: "iterates session_a names"
  by (simp add: iterates_def session_a_def)

lemma iterates_session_b: "iterates session_b names"
  by (simp add: iterates_def session_b_def)

lemma mapping_reviews:
  "IMAGE_ID_MAPPING reviews =
     Inr [''context_2_july.txt'' \<mapsto> ''2.png'', ''context_3_july.txt'' \<mapsto> ''3.png'']"
  by (simp add: IMAGE_ID_MAPPING_def image_rows_def reviews_def enumerate_eq_zip upt_rec
      series_get_def fmt_def)

lemma names_search_response:
  "retrieved_filenames search_response = Inr [''context_2_july.txt'', ''context_3_july.txt'']"
  by (simp add: retrieved_filenames_def search_response_def)

text \<open>
  C6, as stated, fails for the displayed images: the same response, read in two sessions
  whose sets iterate in different orders, shows the two images in different orders.
\<close>

theorem display_order_counterexample:
  "iterates session_a [''context_2_july.txt'', ''context_3_july.txt'']
   \<and> iterates session_b [''context_2_july.txt'', ''context_3_july.txt'']
   \<and> displayed (snd (display_retrieved_images session_a
         [''context_2_july.txt'' \<mapsto> ''2.png'', ''context_3_july.txt'' \<mapsto> ''3.png'']
         search_response ''.local_cache'' blank))
       = [''.local_cache/images/2.png'', ''.local_cache/images/3.png'']
   \<and> displayed (snd (display_retrieved_images session_b
         [''context_2_july.txt'' \<mapsto> ''2.png'', ''context_3_july.txt'' \<mapsto> ''3.png'']
         search_response ''.local_cache'' blank))
       = [''.local_cache/images/3.png'', ''.local_cache/images/2.png'']"
  by (simp add: iterates_session_a iterates_session_b display_retrieved_images_def
      names_search_response display_loop_displayed session_a_def session_b_def
      has_image_def image_file_def blank_def Let_def print_def display_image_def)


text \<open>
  C6, amended.  The CSV table is a function of the records alone.  For one response,
  \<open>display_retrieved_images\<close> returns the same mapping, shows the same images and prints
  the same lines in every session, each as often; but the order in which it shows and
  prints them is the order in which the session iterates a set of file names, which the
  response does not fix.  In sessions that iterate the set in the same order the output is
  identical.
\<close>

theorem display_same_up_to_order:
  assumes "\<forall>names. retrieved_filenames response = Inr names
             \<longrightarrow> iterates it1 names \<and> iterates it2 names"
  shows "map_of (fst (display_retrieved_images it1 mapping response cache_dir st))
           = map_of (fst (display_retrieved_images it2 mapping response cache_dir st))
       \<and> mset (displayed (snd (display_retrieved_images it1 mapping response cache_dir st)))
           = mset (displayed (snd (display_retrieved_images it2 mapping response cache_dir st)))
       \<and> mset (stdout (snd (display_retrieved_images it1 mapping response cache_dir st)))
           = mset (stdout (snd (display_retrieved_images it2 mapping response cache_dir st)))
       \<and> length (fst (display_retrieved_images it1 mapping response cache_dir st))
           = length (fst (display_retrieved_images it2 mapping response cache_dir st))
       \<and> ((\<forall>names. it1 names = it2 names) \<longrightarrow>
            display_retrieved_images it1 mapping response cache_dir st
              = display_retrieved_images it2 mapping response cache_dir st)"
proof (cases "retrieved_filenames response")
  case (Inl e)
  then show ?thesis by (simp add: display_retrieved_images_def)
next
  case (Inr names)
  with assms have it: "iterates it1 names" "iterates it2 names" by simp_all
  let ?shown1 = "filter (has_image mapping) (it1 names)"
  let ?shown2 = "filter (has_image mapping) (it2 names)"
  from iterates_mset [OF it] have ms: "mset ?shown1 = mset ?shown2"
    by (simp only: mset_filter)
  let ?item = "\<lambda>f. (f, image_file cache_dir (the (mapping f)))"
  let ?path = "\<lambda>f. image_file cache_dir (the (mapping f))"
  let ?line = "\<lambda>f. ''Displaying image for '' @ f @ '':''"
  have k1: "map fst (map ?item ?shown1) = ?shown1" by (simp add: comp_def)
  have k2: "map fst (map ?item ?shown2) = ?shown2" by (simp add: comp_def)
  have d1: "distinct (map fst (map ?item ?shown1))"
    unfolding k1 using it(1) by (simp add: iterates_def)
  have d2: "distinct (map fst (map ?item ?shown2))"
    unfolding k2 using it(2) by (simp add: iterates_def)
  have "mset (map ?item ?shown1) = mset (map ?item ?shown2)"
    using ms by (simp only: mset_map)
  then have "set (map ?item ?shown1) = set (map ?item ?shown2)" by (rule mset_eq_setD)
  with d1 d2 have maps: "map_of (map ?item ?shown1) = map_of (map ?item ?shown2)"
    by (simp only: map_of_inject_set)
  have shown: "mset (map ?path ?shown1) = mset (map ?path ?shown2)"
    using ms by (simp only: mset_map)
  have lines: "mset (map ?line ?shown1) = mset (map ?line ?shown2)"
    using ms by (simp only: mset_map)
  have len: "length ?shown1 = length ?shown2"
    using ms by (rule mset_eq_length)
  have r1: "display_retrieved_images it1 mapping response cache_dir st
      = display_loop mapping cache_dir (it1 names) [] st"
    and r2: "display_retrieved_images it2 mapping response cache_dir st
      = display_loop mapping cache_dir (it2 names) [] st"
    by (simp_all add: display_retrieved_images_def Inr)
  have a: "map_of (fst (display_retrieved_images it1 mapping response cache_dir st))
           = map_of (fst (display_retrieved_images it2 mapping response cache_dir st))"
    unfolding r1 r2 display_loop_result append_Nil by (rule maps)
  have b: "mset (displayed (snd (display_retrieved_images it1 mapping response cache_dir st)))
           = mset (displayed (snd (display_retrieved_images it2 mapping response cache_dir st)))"
    unfolding r1 r2 display_loop_displayed mset_append using shown by (simp only:)
  have c: "mset (stdout (snd (display_retrieved_images it1 mapping response cache_dir st)))
           = mset (stdout (snd (display_retrieved_images it2 mapping response cache_dir st)))"
    unfolding r1 r2 display_loop_stdout mset_append using lines by (simp only:)
  have d: "length (fst (display_retrieved_images it1 mapping response cache_dir st))
           = length (fst (display_retrieved_images it2 mapping response cache_dir st))"
    unfolding r1 r2 display_loop_result append_Nil length_map by (rule len)
  have e: "(\<forall>names. it1 names = it2 names) \<longrightarrow>
            display_retrieved_images it1 mapping response cache_dir st
              = display_retrieved_images it2 mapping response cache_dir st"
    unfolding r1 r2 by (intro impI) (simp only:)
  from a b c d e show ?thesis by (intro conjI)
qed

theorem display_same_up_to_order_witness:
  "mset (displayed (snd (display_retrieved_images session_a
         [''context_2_july.txt'' \<mapsto> ''2.png'', ''context_3_july.txt'' \<mapsto> ''3.png'']
         search_response ''.local_cache'' blank)))
   = mset (displayed (snd (display_retrieved_images session_b
         [''context_2_july.txt'' \<mapsto> ''2.png'', ''context_3_july.txt'' \<mapsto> ''3.png'']
         search_response ''.local_cache'' blank)))
   \<and> retrieved_filenames search_response = Inr [''context_2_july.txt'', ''context_3_july.txt'']
   \<and> iterates session_a [''context_2_july.txt'', ''context_3_july.txt'']
   \<and> iterates session_b [''context_2_july.txt'', ''context_3_july.txt'']"
proof -
  have hyp: "\<forall>names. retrieved_filenames search_response = Inr names
             \<longrightarrow> iterates session_a names \<and> iterates session_b names"
    by (simp add: iterates_session_a iterates_session_b)
  from display_same_up_to_order [OF hyp] names_search_response
    iterates_session_a iterates_session_b
  show ?thesis by blast
qed

section \<open>Properties of the service client\<close>

text \<open>
  C7.  On every status that is not a success the client fails, and its error carries the
  status and its category; the two failures the schema declares, 400 and 401, give errors
  of different categories, client error and auth error.
\<close>

theorem service_error_identifies_status:
  "(\<not> is_success status \<longrightarrow>
      service_client status body = Inl (ServiceError status (status_category_of status)))
   \<and> (is_success status \<longrightarrow> service_client status body = Inr body)
   \<and> service_client 400 body = Inl (ServiceError 400 ClientError)
   \<and> service_client 401 body = Inl (ServiceError 401 AuthError)
   \<and> service_client 400 body \<noteq> service_client 401 body'
   \<and> (\<forall>(declared, description) \<in> set schema_responses.
         declared \<noteq> 200 \<longrightarrow> isl (service_client declared body))"
  by (simp add: service_client_def is_success_def status_category_of_def schema_responses_def)

theorem service_error_identifies_status_witness:
  "\<not> is_success 400 \<and> is_success 200
   \<and> service_client 400 ''select 1'' = Inl (ServiceError 400 ClientError)
   \<and> service_client 200 ''select 1'' = Inr ''select 1''
   \<and> (401, ''Unauthorized. Invalid or missing API key.'') \<in> set schema_responses
   \<and> isl (service_client 401 ''select 1'')"
proof -
  have f: "\<not> is_success 400" and s: "is_success 200"
    by (simp_all add: is_success_def)
  have d: "(401, ''Unauthorized. Invalid or missing API key.'') \<in> set schema_responses"
    by (simp add: schema_responses_def)
  note inst = service_error_identifies_status [where body = "''select 1''"]
  from inst [of 400] f have a: "service_client 400 ''select 1'' = Inl (ServiceError 400 ClientError)"
    by blast
  from inst [of 200] s have b: "service_client 200 ''select 1'' = Inr ''select 1''"
    by blast
  from inst [of 0] d have c: "isl (service_client 401 ''select 1'')"
    by fastforce
  from f s a b c d show ?thesis by blast
qed

end
